theory Spec2Isabelle
  imports Complex_Main "HOL-Library.Sublist"
begin

section \<open>Strings\<close>

text \<open>
  A Python \<open>str\<close> is modelled as a \<open>string\<close>, one \<open>char\<close> per code point; the model
  therefore covers texts whose code points are below 256. \<open>sub in s\<close> on strings is the
  library's \<open>sublist sub s\<close> (a contiguous occurrence).
\<close>

definition lower_char :: "char \<Rightarrow> char" where
  "lower_char c =
     (let n = (of_char c :: nat)
      in if (65 \<le> n \<and> n \<le> 90) \<or> (192 \<le> n \<and> n \<le> 222 \<and> n \<noteq> 215)
         then char_of (n + 32) else c)"

text \<open>\<open>str.lower()\<close>: the letters A-Z, and the upper-case letters of Latin-1.\<close>

definition lower :: "string \<Rightarrow> string" where
  "lower s = map lower_char s"

section \<open>Candidate selector: \<open>VideoDownloader._select_best_download_url\<close>\<close>

text \<open>
  One entry of \<open>download_urls\<close>. The source reads \<open>url_info["url"]\<close> and
  \<open>url_info.get(key, default)\<close> for the other three keys, so those are optional here:
  \<open>None\<close> is an absent key.
\<close>

record candidate =
  c_url :: string
  c_quality :: "string option"
  c_format :: "string option"
  c_size :: "int option"

text \<open>
  The body of the \<open>for\<close> loop up to the comparison: \<open>score = 0\<close>, then the three
  blocks in the order of the source, each adding to the running score. \<open>size / (1024 * 1024)\<close>
  is Python's true division; on integers it is exact here (a division by a power of two).
\<close>

definition score :: "candidate \<Rightarrow> int" where
  "score url_info =
     (let score0 = 0;
          quality = lower (case c_quality url_info of None \<Rightarrow> ''unknown'' | Some q \<Rightarrow> q);
          score1 = (if sublist ''1080'' quality \<or> sublist ''hd'' quality then score0 + 3
                    else if sublist ''720'' quality then score0 + 2
                    else if sublist ''480'' quality then score0 + 1
                    else score0);
          format_type = lower (case c_format url_info of None \<Rightarrow> ''unknown'' | Some f \<Rightarrow> f);
          score2 = (if format_type \<in> set [''mp4'', ''webm''] then score1 + 2
                    else if format_type = ''direct'' then score1 + 1
                    else score1);
          size = (case c_size url_info of None \<Rightarrow> 0 | Some n \<Rightarrow> n);
          score3 = (if size > 0
                    then (let size_mb = real_of_int size / (1024 * 1024)
                          in if size_mb < 100 then score2 + 2
                             else if size_mb < 500 then score2 + 1
                             else score2)
                    else score2)
      in score3)"

text \<open>The loop, carrying \<open>best_url\<close> and \<open>best_score\<close>.\<close>

fun select_loop :: "candidate list \<Rightarrow> string \<Rightarrow> int \<Rightarrow> string" where
  "select_loop [] best_url best_score = best_url"
| "select_loop (url_info # rest) best_url best_score =
     (if score url_info > best_score
      then select_loop rest (c_url url_info) (score url_info)
      else select_loop rest best_url best_score)"

definition select_best_download_url :: "candidate list \<Rightarrow> string" where
  "select_best_download_url download_urls =
     (case download_urls of
        [] \<Rightarrow> ''''
      | first # _ \<Rightarrow> select_loop download_urls (c_url first) 0)"

subsection \<open>The scoring table as the specification words it\<close>

definition mb :: int where
  "mb = 1024 * 1024"

definition spec_quality_points :: "candidate \<Rightarrow> int" where
  "spec_quality_points c =
     (let label = lower (case c_quality c of None \<Rightarrow> ''unknown'' | Some q \<Rightarrow> q)
      in if sublist ''1080'' label \<or> sublist ''hd'' label then 3
         else if sublist ''720'' label then 2
         else if sublist ''480'' label then 1
         else 0)"

definition spec_format_points :: "candidate \<Rightarrow> int" where
  "spec_format_points c =
     (let fmt = lower (case c_format c of None \<Rightarrow> ''unknown'' | Some f \<Rightarrow> f)
      in if fmt = ''mp4'' \<or> fmt = ''webm'' then 2
         else if fmt = ''direct'' then 1
         else 0)"

definition spec_size_points :: "candidate \<Rightarrow> int" where
  "spec_size_points c =
     (case c_size c of
        None \<Rightarrow> 0
      | Some n \<Rightarrow>
          if 0 < n \<and> n < 100 * mb then 2
          else if 100 * mb \<le> n \<and> n < 500 * mb then 1
          else 0)"

definition spec_score :: "candidate \<Rightarrow> int" where
  "spec_score c = spec_quality_points c + spec_format_points c + spec_size_points c"

text \<open>The two candidates of the specification's example.\<close>

definition cand_720 :: candidate where
  "cand_720 = \<lparr>c_url = ''https://cdn.example/v720.mp4'', c_quality = Some ''720p'',
               c_format = Some ''mp4'', c_size = Some (50 * 1024 * 1024)\<rparr>"

definition cand_1080 :: candidate where
  "cand_1080 = \<lparr>c_url = ''https://cdn.example/v1080.flv'', c_quality = Some ''1080p'',
                c_format = Some ''flv'', c_size = Some (600 * 1024 * 1024)\<rparr>"

subsection \<open>Properties of the selector\<close>

lemma score_refines_spec: "score c = spec_score c"
proof (cases "c_size c")
  case None
  then show ?thesis
    by (simp add: score_def spec_score_def spec_quality_points_def spec_format_points_def
        spec_size_points_def Let_def)
next
  case (Some n)
  then show ?thesis
    by (simp add: score_def spec_score_def spec_quality_points_def spec_format_points_def
        spec_size_points_def Let_def mb_def)
qed

lemma score_nonneg: "0 \<le> score c"
  by (simp add: score_refines_spec spec_score_def spec_quality_points_def
      spec_format_points_def spec_size_points_def Let_def split: option.split)

text \<open>
  What the loop computes from any starting pair: either no candidate beats the running
  best and the running URL is kept, or the result is the first candidate of maximal
  score, and that score beats the running best.
\<close>

lemma select_loop_first_max:
  "(select_loop cs bu bs = bu \<and> list_all (\<lambda>c. score c \<le> bs) cs) \<or>
   (\<exists>i<length cs. select_loop cs bu bs = c_url (cs ! i) \<and> bs < score (cs ! i) \<and>
       list_all (\<lambda>c. score c \<le> score (cs ! i)) cs \<and>
       list_all (\<lambda>c. score c < score (cs ! i)) (take i cs))"
proof (induction cs arbitrary: bu bs)
  case Nil
  show ?case by simp
next
  case (Cons c cs)
  show ?case
  proof (cases "score c > bs")
    case True
    from Cons.IH [of "c_url c" "score c"] show ?thesis
    proof
      assume keep: "select_loop cs (c_url c) (score c) = c_url c \<and>
        list_all (\<lambda>d. score d \<le> score c) cs"
      have "0 < length (c # cs)" by simp
      moreover have "select_loop (c # cs) bu bs = c_url ((c # cs) ! 0)"
        using True keep by simp
      moreover have "bs < score ((c # cs) ! 0)" using True by simp
      moreover have "list_all (\<lambda>d. score d \<le> score ((c # cs) ! 0)) (c # cs)"
        using keep by simp
      moreover have "list_all (\<lambda>d. score d < score ((c # cs) ! 0)) (take 0 (c # cs))"
        by simp
      ultimately show ?thesis by blast
    next
      assume "\<exists>i<length cs. select_loop cs (c_url c) (score c) = c_url (cs ! i) \<and>
        score c < score (cs ! i) \<and> list_all (\<lambda>d. score d \<le> score (cs ! i)) cs \<and>
        list_all (\<lambda>d. score d < score (cs ! i)) (take i cs)"
      then obtain i where i: "i < length cs"
        and sel: "select_loop cs (c_url c) (score c) = c_url (cs ! i)"
        and gt: "score c < score (cs ! i)"
        and mx: "list_all (\<lambda>d. score d \<le> score (cs ! i)) cs"
        and fst: "list_all (\<lambda>d. score d < score (cs ! i)) (take i cs)"
        by blast
      have "Suc i < length (c # cs)" using i by simp
      moreover have "select_loop (c # cs) bu bs = c_url ((c # cs) ! Suc i)"
        using True sel by simp
      moreover have "bs < score ((c # cs) ! Suc i)" using True gt by simp
      moreover have "list_all (\<lambda>d. score d \<le> score ((c # cs) ! Suc i)) (c # cs)"
        using mx gt by simp
      moreover have "list_all (\<lambda>d. score d < score ((c # cs) ! Suc i)) (take (Suc i) (c # cs))"
        using fst gt by simp
      ultimately show ?thesis by blast
    qed
  next
    case False
    from Cons.IH [of bu bs] show ?thesis
    proof
      assume "select_loop cs bu bs = bu \<and> list_all (\<lambda>d. score d \<le> bs) cs"
      then show ?thesis using False by simp
    next
      assume "\<exists>i<length cs. select_loop cs bu bs = c_url (cs ! i) \<and> bs < score (cs ! i) \<and>
        list_all (\<lambda>d. score d \<le> score (cs ! i)) cs \<and>
        list_all (\<lambda>d. score d < score (cs ! i)) (take i cs)"
      then obtain i where i: "i < length cs"
        and sel: "select_loop cs bu bs = c_url (cs ! i)"
        and gt: "bs < score (cs ! i)"
        and mx: "list_all (\<lambda>d. score d \<le> score (cs ! i)) cs"
        and fst: "list_all (\<lambda>d. score d < score (cs ! i)) (take i cs)"
        by blast
      have "Suc i < length (c # cs)" using i by simp
      moreover have "select_loop (c # cs) bu bs = c_url ((c # cs) ! Suc i)"
        using False sel by simp
      moreover have "bs < score ((c # cs) ! Suc i)" using gt by simp
      moreover have "list_all (\<lambda>d. score d \<le> score ((c # cs) ! Suc i)) (c # cs)"
        using mx gt False by simp
      moreover have "list_all (\<lambda>d. score d < score ((c # cs) ! Suc i)) (take (Suc i) (c # cs))"
        using fst gt False by simp
      ultimately show ?thesis by blast
    qed
  qed
qed

lemma select_best_first_max:
  assumes "cs \<noteq> []"
  shows "\<exists>i<length cs. select_best_download_url cs = c_url (cs ! i) \<and>
           (\<forall>j<length cs. score (cs ! j) \<le> score (cs ! i)) \<and>
           (\<forall>j<i. score (cs ! j) < score (cs ! i))"
proof -
  from assms obtain c rest where cs: "cs = c # rest" by (cases cs) auto
  have sel: "select_best_download_url cs = select_loop cs (c_url (cs ! 0)) 0"
    by (simp add: cs select_best_download_url_def)
  from select_loop_first_max [of cs "c_url (cs ! 0)" 0] show ?thesis
  proof
    assume keep: "select_loop cs (c_url (cs ! 0)) 0 = c_url (cs ! 0) \<and>
      list_all (\<lambda>c. score c \<le> 0) cs"
    then have "\<forall>j<length cs. score (cs ! j) \<le> 0" by (simp add: list_all_length)
    moreover have "score (cs ! 0) = 0"
      using keep score_nonneg [of "cs ! 0"] by (simp add: cs)
    moreover have "0 < length cs" by (simp add: cs)
    ultimately show ?thesis using keep sel by auto
  next
    assume "\<exists>i<length cs. select_loop cs (c_url (cs ! 0)) 0 = c_url (cs ! i) \<and>
      0 < score (cs ! i) \<and> list_all (\<lambda>c. score c \<le> score (cs ! i)) cs \<and>
      list_all (\<lambda>c. score c < score (cs ! i)) (take i cs)"
    then obtain i where i: "i < length cs"
      and r: "select_loop cs (c_url (cs ! 0)) 0 = c_url (cs ! i)"
      and mx: "list_all (\<lambda>c. score c \<le> score (cs ! i)) cs"
      and fst: "list_all (\<lambda>c. score c < score (cs ! i)) (take i cs)"
      by blast
    from mx have "\<forall>j<length cs. score (cs ! j) \<le> score (cs ! i)"
      by (simp add: list_all_length)
    moreover from fst i have "\<forall>j<i. score (cs ! j) < score (cs ! i)"
      by (simp add: list_all_length)
    ultimately show ?thesis using i r sel by auto
  qed
qed

lemma score_cand_720: "score cand_720 = 6"
  by (simp add: score_def cand_720_def lower_def lower_char_def Let_def sublist_Cons_right)

lemma score_cand_1080: "score cand_1080 = 3"
  by (simp add: score_def cand_1080_def lower_def lower_char_def Let_def sublist_Cons_right)

lemma select_example:
  "select_best_download_url [cand_720, cand_1080] = c_url cand_720"
  by (simp add: select_best_download_url_def score_cand_720 score_cand_1080)

text \<open>
  Claim C4. The selector's score is the sum of the three tiers of the scoring table
  (quality, container format, size); on a non-empty list the selector returns the URL of
  a candidate of maximal score, namely the first one (every earlier candidate scores
  strictly less); and on the specification's example the scores are 6 and 3 and the
  720p mp4 candidate is picked.
\<close>

theorem candidate_selector_scores_and_picks_first_best:
  "score c = spec_quality_points c + spec_format_points c + spec_size_points c \<and>
   (cs \<noteq> [] \<longrightarrow>
      (\<exists>i<length cs. select_best_download_url cs = c_url (cs ! i) \<and>
         (\<forall>j<length cs. score (cs ! j) \<le> score (cs ! i)) \<and>
         (\<forall>j<i. score (cs ! j) < score (cs ! i)))) \<and>
   score cand_720 = 6 \<and> score cand_1080 = 3 \<and>
   select_best_download_url [cand_720, cand_1080] = c_url cand_720"
  using score_refines_spec [of c] select_best_first_max [of cs]
    score_cand_720 score_cand_1080 select_example
  by (simp add: spec_score_def)

theorem candidate_selector_witness:
  "[cand_1080, cand_720] \<noteq> [] \<and>
   (\<exists>i<length [cand_1080, cand_720].
      select_best_download_url [cand_1080, cand_720] = c_url ([cand_1080, cand_720] ! i) \<and>
      score ([cand_1080, cand_720] ! i) = 6)"
proof -
  have ne: "[cand_1080, cand_720] \<noteq> []" by simp
  from candidate_selector_scores_and_picks_first_best [of cand_720 "[cand_1080, cand_720]"] ne
  obtain i where i: "i < length [cand_1080, cand_720]"
    and sel: "select_best_download_url [cand_1080, cand_720] = c_url ([cand_1080, cand_720] ! i)"
    and mx: "\<forall>j<length [cand_1080, cand_720].
               score ([cand_1080, cand_720] ! j) \<le> score ([cand_1080, cand_720] ! i)"
    by blast
  from mx [rule_format, of 1]
  have "score ([cand_1080, cand_720] ! 1) \<le> score ([cand_1080, cand_720] ! i)"
    by simp
  then have "6 \<le> score ([cand_1080, cand_720] ! i)"
    by (simp add: score_cand_720)
  moreover from i have "i = 0 \<or> i = 1" by auto
  ultimately have "score ([cand_1080, cand_720] ! i) = 6"
    by (auto simp: score_cand_720 score_cand_1080)
  with ne i sel show ?thesis by blast
qed

section \<open>Regular expressions: the fragment of Python's \<open>re\<close> the classifier uses\<close>

text \<open>
  The patterns of the source use literals, character classes, \<open>.\<close>, the greedy
  repetitions \<open>*\<close> and \<open>+\<close> on single-character items only, the greedy \<open>?\<close>,
  capturing groups, alternation and \<open>$\<close>. The matcher below is a backtracking one: it
  returns every way the pattern can match at the start of the input, in the order in
  which Python's engine tries them (leftmost alternative first, longest repetition
  first), each as the captured groups and the rest of the input. \<open>re.match\<close> is the
  first of them.
\<close>

datatype cls_item = Ch char | Rng char char | Space | Digit

text \<open>
  \<open>\s\<close> on a \<open>str\<close> pattern is Unicode white space: below 256 these are the code
  points 9-13, 28-32, 133 and 160. \<open>\d\<close> below 256 is 0-9.
\<close>

fun item_matches :: "cls_item \<Rightarrow> char \<Rightarrow> bool" where
  "item_matches (Ch a) c = (c = a)"
| "item_matches (Rng lo hi) c =
     ((of_char lo :: nat) \<le> of_char c \<and> (of_char c :: nat) \<le> of_char hi)"
| "item_matches Space c =
     ((of_char c :: nat) \<in> set [9, 10, 11, 12, 13, 28, 29, 30, 31, 32, 133, 160])"
| "item_matches Digit c = (48 \<le> (of_char c :: nat) \<and> (of_char c :: nat) \<le> 57)"

text \<open>\<open>.\<close> (any character but a newline), \<open>[...]\<close> and \<open>[^...]\<close>.\<close>

datatype atom = Dot | Cls "cls_item list" | NCls "cls_item list"

fun atom_matches :: "atom \<Rightarrow> char \<Rightarrow> bool" where
  "atom_matches Dot c = (c \<noteq> CHR 0x0A)"
| "atom_matches (Cls items) c = list_ex (\<lambda>i. item_matches i c) items"
| "atom_matches (NCls items) c = (\<not> list_ex (\<lambda>i. item_matches i c) items)"

datatype rexp =
    Str string
  | One atom
  | Star atom
  | Plus atom
  | Opt rexp
  | Grp nat rexp
  | Alt "rexp list"
  | Cat "rexp list"
  | Eos

type_synonym caps = "(nat \<times> string) list"

type_synonym mstate = "caps \<times> string"

text \<open>The inputs left after a greedy repetition of one item: longest run first.\<close>

fun star_ends :: "atom \<Rightarrow> string \<Rightarrow> string list" where
  "star_ends a [] = [[]]"
| "star_ends a (x # xs) =
     (if atom_matches a x then star_ends a xs @ [x # xs] else [x # xs])"

text \<open>
  \<open>Eos\<close> is \<open>$\<close> without the MULTILINE flag: the end of the input, or just before a
  newline that ends it. \<open>Grp n r\<close> records what \<open>r\<close> consumed as group \<open>n\<close>.
\<close>

fun bt :: "rexp \<Rightarrow> mstate \<Rightarrow> mstate list" where
  "bt (Str lit) (c, s) = (if prefix lit s then [(c, drop (length lit) s)] else [])"
| "bt (One a) (c, s) =
     (case s of [] \<Rightarrow> [] | x # xs \<Rightarrow> if atom_matches a x then [(c, xs)] else [])"
| "bt (Star a) (c, s) = map (Pair c) (star_ends a s)"
| "bt (Plus a) (c, s) =
     (case s of
        [] \<Rightarrow> []
      | x # xs \<Rightarrow> if atom_matches a x then map (Pair c) (star_ends a xs) else [])"
| "bt (Opt r) (c, s) = bt r (c, s) @ [(c, s)]"
| "bt (Grp n r) (c, s) =
     map (\<lambda>(c', s'). ((n, take (length s - length s') s) # c', s')) (bt r (c, s))"
| "bt (Alt rs) (c, s) = concat (map (\<lambda>r. bt r (c, s)) rs)"
| "bt (Cat []) (c, s) = [(c, s)]"
| "bt (Cat (r # rs)) (c, s) = concat (map (bt (Cat rs)) (bt r (c, s)))"
| "bt Eos (c, s) = (if s = [] \<or> s = [CHR 0x0A] then [(c, s)] else [])"

text \<open>\<open>re.match(pattern, s)\<close>: the groups and the unmatched rest, or \<open>None\<close>.\<close>

definition re_match :: "rexp \<Rightarrow> string \<Rightarrow> mstate option" where
  "re_match r s = (case bt r ([], s) of [] \<Rightarrow> None | m # _ \<Rightarrow> Some m)"

text \<open>\<open>match.group(n)\<close>: \<open>None\<close> when the group took no part in the match.\<close>

definition group :: "mstate \<Rightarrow> nat \<Rightarrow> string option" where
  "group m n = map_of (fst m) n"

text \<open>\<open>len(match.groups())\<close>: the number of capturing groups of the pattern.\<close>

fun n_groups :: "rexp \<Rightarrow> nat" where
  "n_groups (Opt r) = n_groups r"
| "n_groups (Grp n r) = Suc (n_groups r)"
| "n_groups (Alt rs) = sum_list (map n_groups rs)"
| "n_groups (Cat rs) = sum_list (map n_groups rs)"
| "n_groups r = 0"

section \<open>Link classifier\<close>

subsection \<open>The pattern tables of \<open>LinkClassifier.__init__\<close>\<close>

definition scheme :: "rexp list" where
  "scheme = [Str ''http'', Opt (Str ''s''), Str ''://'']"

definition www :: rexp where
  "www = Opt (Str ''www.'')"

definition alnum :: atom where
  "alnum = Cls [Rng CHR ''A'' CHR ''Z'', Rng CHR ''a'' CHR ''z'', Rng CHR ''0'' CHR ''9'']"

definition alnum_dash :: atom where
  "alnum_dash = Cls [Rng CHR ''A'' CHR ''Z'', Rng CHR ''a'' CHR ''z'', Rng CHR ''0'' CHR ''9'',
                     Ch CHR ''_'', Ch CHR ''-'']"

definition not_slash :: atom where
  "not_slash = NCls [Ch CHR ''/'']"

definition video_ext :: rexp where
  "video_ext = Alt [Str ''mp4'', Str ''avi'', Str ''mov'', Str ''mkv'', Str ''wmv'', Str ''flv'',
                    Str ''webm'', Str ''m4v'']"

definition audio_ext :: rexp where
  "audio_ext = Alt [Str ''mp3'', Str ''wav'', Str ''m4a'', Str ''aac'', Str ''flac'', Str ''ogg'']"

text \<open>The tail \<open>(\?.*)?$\<close> shared by the direct-link patterns; \<open>n\<close> numbers its group.\<close>

definition query_tail :: "nat \<Rightarrow> rexp list" where
  "query_tail n = [Opt (Grp n (Cat [Str ''?'', Star Dot])), Eos]"

definition link_patterns :: "(string \<times> rexp list) list" where
  "link_patterns =
    [(''bilibili'',
       [Cat (scheme @ [www, Str ''bilibili.com/video/'', Grp 1 (Plus alnum)]),
        Cat (scheme @ [Str ''b23.tv/'', Grp 1 (Plus alnum)]),
        Cat (scheme @ [www, Str ''bilibili.com/bangumi/play/'', Grp 1 (Plus alnum)]),
        Cat (scheme @ [www, Str ''bilibili.com/medialist/play/'', Grp 1 (Plus alnum)]),
        Cat (scheme @ [www, Str ''bilibili.com/cheese/play/'', Grp 1 (Plus alnum)])]),
     (''youtube'',
       [Cat (scheme @ [www, Str ''youtube.com/watch?v='', Grp 1 (Plus alnum_dash)]),
        Cat (scheme @ [Str ''youtu.be/'', Grp 1 (Plus alnum_dash)]),
        Cat (scheme @ [www, Str ''youtube.com/embed/'', Grp 1 (Plus alnum_dash)])]),
     (''vimeo'',
       [Cat (scheme @ [www, Str ''vimeo.com/'', Grp 1 (Plus (Cls [Digit]))]),
        Cat (scheme @ [Str ''player.vimeo.com/video/'', Grp 1 (Plus (Cls [Digit]))])]),
     (''douyin'',
       [Cat (scheme @ [www, Str ''douyin.com/video/'', Grp 1 (Plus alnum)]),
        Cat (scheme @ [Str ''v.douyin.com/'', Grp 1 (Plus alnum)])]),
     (''kuaishou'',
       [Cat (scheme @ [www, Str ''kuaishou.com/short-video/'', Grp 1 (Plus alnum)]),
        Cat (scheme @ [Str ''v.kuaishou.com/'', Grp 1 (Plus alnum)])]),
     (''direct_video'',
       [Cat ([Star Dot, Str ''.'', Grp 1 video_ext] @ query_tail 2),
        Cat (scheme @ [Star not_slash, Str ''bilivideo.com/'', Star Dot, Str ''.'',
                       Grp 1 (Alt [Str ''mp4'', Str ''flv'', Str ''m4v''])] @ query_tail 2),
        Cat (scheme @ [Star not_slash, Str ''.'',
                       Grp 1 (Alt [Str ''cdn'', Str ''media'', Str ''video'', Str ''stream'']),
                       Str ''.com/'', Star Dot, Str ''.'', Grp 2 video_ext] @ query_tail 3),
        Cat (scheme @ [Star not_slash, Str ''.'', Grp 1 video_ext] @ query_tail 2)]),
     (''direct_audio'',
       [Cat ([Star Dot, Str ''.'', Grp 1 audio_ext] @ query_tail 2),
        Cat (scheme @ [Star not_slash, Str ''.'', Grp 1 audio_ext] @ query_tail 2)])]"

text \<open>The pattern of \<open>_extract_links\<close>.\<close>

definition url_body :: atom where
  "url_body = NCls [Space, Ch CHR ''<'', Ch CHR ''>'', Ch CHR 0x22, Ch CHR ''{'', Ch CHR ''}'',
                    Ch CHR ''|'', Ch CHR 0x5C, Ch CHR ''^'', Ch CHR 0x60, Ch CHR ''['',
                    Ch CHR '']'']"

definition url_pattern :: rexp where
  "url_pattern = Cat (scheme @ [Plus url_body])"


subsection \<open>URL-shaped substrings, stated without the matcher\<close>

text \<open>
  What the specification calls a URL-shaped substring: the scheme \<open>http://\<close> or
  \<open>https://\<close> followed by a non-empty body with no white space and none of the
  characters \<open><>"{}|\^`[]\<close>.
\<close>

definition url_body_char :: "char \<Rightarrow> bool" where
  "url_body_char c =
     ((of_char c :: nat) \<notin> set [9, 10, 11, 12, 13, 28, 29, 30, 31, 32, 133, 160] \<and>
      c \<notin> set [CHR ''<'', CHR ''>'', CHR 0x22, CHR ''{'', CHR ''}'', CHR ''|'', CHR 0x5C,
                 CHR ''^'', CHR 0x60, CHR ''['', CHR '']''])"

definition url_shaped :: "string \<Rightarrow> bool" where
  "url_shaped m =
     (\<exists>body. (m = ''http://'' @ body \<or> m = ''https://'' @ body) \<and>
             body \<noteq> [] \<and> list_all url_body_char body)"

definition has_url_shaped_substring :: "string \<Rightarrow> bool" where
  "has_url_shaped_substring text = (\<exists>pre m post. text = pre @ m @ post \<and> url_shaped m)"

subsection \<open>What the matcher returns, as sets\<close>

lemma star_ends_set:
  "t \<in> set (star_ends a s) \<longleftrightarrow> (\<exists>b. s = b @ t \<and> list_all (atom_matches a) b)"
proof (induction s)
  case Nil
  show ?case by auto
next
  case (Cons x xs)
  show ?case
  proof
    assume "t \<in> set (star_ends a (x # xs))"
    then consider "atom_matches a x" "t \<in> set (star_ends a xs)" | "t = x # xs"
      by (auto split: if_splits)
    then show "\<exists>b. x # xs = b @ t \<and> list_all (atom_matches a) b"
    proof cases
      case 1
      with Cons.IH obtain b where "xs = b @ t" "list_all (atom_matches a) b" by blast
      then have "x # xs = (x # b) @ t \<and> list_all (atom_matches a) (x # b)"
        using 1 by simp
      then show ?thesis by blast
    next
      case 2
      then have "x # xs = [] @ t \<and> list_all (atom_matches a) []" by simp
      then show ?thesis by blast
    qed
  next
    assume "\<exists>b. x # xs = b @ t \<and> list_all (atom_matches a) b"
    then obtain b where b: "x # xs = b @ t" "list_all (atom_matches a) b" by blast
    show "t \<in> set (star_ends a (x # xs))"
    proof (cases b)
      case Nil
      with b have "t = x # xs" by simp
      then show ?thesis by simp
    next
      case (Cons y ys)
      with b have "xs = ys @ t" "list_all (atom_matches a) ys" "atom_matches a x" by auto
      with Cons.IH show ?thesis by auto
    qed
  qed
qed

lemma bt_Str_set: "(c', t) \<in> set (bt (Str lit) (c, s)) \<longleftrightarrow> c' = c \<and> s = lit @ t"
  by (auto simp: prefix_def)

lemma bt_Plus_set:
  "(c', t) \<in> set (bt (Plus a) (c, s)) \<longleftrightarrow>
     c' = c \<and> (\<exists>b. b \<noteq> [] \<and> s = b @ t \<and> list_all (atom_matches a) b)"
proof (cases s)
  case Nil
  then show ?thesis by auto
next
  case (Cons x xs)
  show ?thesis
  proof
    assume "(c', t) \<in> set (bt (Plus a) (c, s))"
    with Cons have ax: "atom_matches a x" and "c' = c" and "t \<in> set (star_ends a xs)"
      by (auto split: if_splits)
    then obtain b where "xs = b @ t" "list_all (atom_matches a) b"
      using star_ends_set by blast
    with ax Cons have "x # b \<noteq> [] \<and> s = (x # b) @ t \<and> list_all (atom_matches a) (x # b)"
      by simp
    with \<open>c' = c\<close> show "c' = c \<and> (\<exists>b. b \<noteq> [] \<and> s = b @ t \<and> list_all (atom_matches a) b)"
      by blast
  next
    assume "c' = c \<and> (\<exists>b. b \<noteq> [] \<and> s = b @ t \<and> list_all (atom_matches a) b)"
    then obtain b where c: "c' = c" and b: "b \<noteq> []" "s = b @ t" "list_all (atom_matches a) b"
      by blast
    then obtain y ys where ys: "b = y # ys" by (cases b) auto
    with b Cons have "x = y" "xs = ys @ t" "atom_matches a x" "list_all (atom_matches a) ys"
      by auto
    then have "t \<in> set (star_ends a xs)" using star_ends_set by blast
    with \<open>atom_matches a x\<close> Cons c show "(c', t) \<in> set (bt (Plus a) (c, s))" by auto
  qed
qed

lemma bt_Opt_set: "x \<in> set (bt (Opt r) st) \<longleftrightarrow> x \<in> set (bt r st) \<or> x = st"
  by (cases st) auto

lemma bt_Cat_Cons_set:
  "x \<in> set (bt (Cat (r # rs)) st) \<longleftrightarrow> (\<exists>mid \<in> set (bt r st). x \<in> set (bt (Cat rs) mid))"
  by (cases st) auto

lemma bt_Cat_Nil_set: "x \<in> set (bt (Cat []) st) \<longleftrightarrow> x = st"
  by (cases st) auto

lemma bt_scheme_http: "bt (Cat (scheme @ rs)) (c, ''http://'' @ rest) = bt (Cat rs) (c, rest)"
  by (simp add: scheme_def)

lemma bt_scheme_https: "bt (Cat (scheme @ rs)) (c, ''https://'' @ rest) = bt (Cat rs) (c, rest)"
  by (simp add: scheme_def)

lemma url_body_matches: "atom_matches url_body c = url_body_char c"
  by (auto simp: url_body_def url_body_char_def)

lemma bt_url_pattern_set:
  "(c', t) \<in> set (bt url_pattern (c, s)) \<longleftrightarrow> c' = c \<and> (\<exists>m. url_shaped m \<and> s = m @ t)"
proof
  assume "(c', t) \<in> set (bt url_pattern (c, s))"
  then obtain s1 s2 s3 where
    "s = ''http'' @ s1" "s2 = s1 \<or> s1 = ''s'' @ s2" "s2 = ''://'' @ s3"
    and plus: "(c', t) \<in> set (bt (Plus url_body) (c, s3))"
    by (auto simp: url_pattern_def scheme_def bt_Cat_Cons_set bt_Cat_Nil_set bt_Opt_set
        bt_Str_set simp del: bt.simps)
  moreover from plus obtain b where "c' = c" "b \<noteq> []" "s3 = b @ t" "list_all url_body_char b"
    by (auto simp: bt_Plus_set url_body_matches list_all_iff simp del: bt.simps)
  ultimately have "url_shaped (''http://'' @ b) \<and> s = (''http://'' @ b) @ t \<or>
    url_shaped (''https://'' @ b) \<and> s = (''https://'' @ b) @ t"
    by (auto simp: url_shaped_def)
  with \<open>c' = c\<close> show "c' = c \<and> (\<exists>m. url_shaped m \<and> s = m @ t)" by blast
next
  assume "c' = c \<and> (\<exists>m. url_shaped m \<and> s = m @ t)"
  then obtain m where c: "c' = c" and m: "url_shaped m" "s = m @ t" by blast
  then obtain body where body: "m = ''http://'' @ body \<or> m = ''https://'' @ body"
    "body \<noteq> []" "list_all url_body_char body"
    by (auto simp: url_shaped_def)
  then have "(c, t) \<in> set (bt (Plus url_body) (c, body @ t))"
    by (auto simp: bt_Plus_set url_body_matches list_all_iff simp del: bt.simps)
  then have plus: "(c, t) \<in> set (bt (Cat [Plus url_body]) (c, body @ t))"
    by (auto simp: bt_Cat_Cons_set bt_Cat_Nil_set simp del: bt.simps)
  from body(1) show "(c', t) \<in> set (bt url_pattern (c, s))"
  proof
    assume "m = ''http://'' @ body"
    then have "s = ''http://'' @ body @ t" using m by simp
    with plus c show ?thesis
      unfolding url_pattern_def by (simp only: bt_scheme_http)
  next
    assume "m = ''https://'' @ body"
    then have "s = ''https://'' @ body @ t" using m by simp
    with plus c show ?thesis
      unfolding url_pattern_def by (simp only: bt_scheme_https)
  qed
qed

lemma url_shaped_nonempty: "url_shaped m \<Longrightarrow> m \<noteq> []"
  by (auto simp: url_shaped_def)

lemma re_match_SomeD: "re_match r s = Some m \<Longrightarrow> m \<in> set (bt r ([], s))"
  by (auto simp: re_match_def split: list.splits)

lemma re_match_None_iff: "re_match r s = None \<longleftrightarrow> set (bt r ([], s)) = {}"
  by (auto simp: re_match_def split: list.splits)

lemma url_match_consumes:
  assumes "re_match url_pattern s = Some (c, rest)"
  shows "\<exists>m. url_shaped m \<and> s = m @ rest"
  using re_match_SomeD [OF assms] by (simp add: bt_url_pattern_set)

lemma url_match_shorter:
  "re_match url_pattern s = Some (c, rest) \<Longrightarrow> length rest < length s"
  using url_match_consumes [of s c rest] url_shaped_nonempty by fastforce

subsection \<open>\<open>_extract_links\<close>\<close>

text \<open>
  \<open>re.findall(url_pattern, text)\<close>: scan from the left; where the pattern matches, the
  matched text is one result and the scan goes on after it; elsewhere the scan moves one
  character on. The pattern has no group, so each result is the whole match, and it
  never matches the empty string, so no rule for empty matches is needed.
\<close>

function extract_from :: "string \<Rightarrow> string list" where
  "extract_from [] = []"
| "extract_from (x # xs) =
     (case re_match url_pattern (x # xs) of
        None \<Rightarrow> extract_from xs
      | Some (c, rest) \<Rightarrow>
          take (length (x # xs) - length rest) (x # xs) # extract_from rest)"
  by pat_completeness auto
termination
  by (relation "measure length") (auto dest: url_match_shorter)

definition extract_links :: "string \<Rightarrow> string list" where
  "extract_links text = extract_from text"


subsection \<open>\<open>_identify_link_type\<close>, \<open>_get_parser_name\<close>, \<open>_select_primary_link\<close>\<close>

text \<open>
  The inner loop over one group's patterns: the first pattern that matches decides, and
  gives \<open>match.group(1)\<close> when the pattern has a group. The result is \<open>None\<close> when no
  pattern of the group matches, and otherwise the platform id (itself optional).
\<close>

fun first_match :: "rexp list \<Rightarrow> string \<Rightarrow> string option option" where
  "first_match [] url = None"
| "first_match (pattern # patterns) url =
     (case re_match pattern url of
        Some m \<Rightarrow> Some (if n_groups pattern > 0 then group m 1 else None)
      | None \<Rightarrow> first_match patterns url)"

text \<open>The outer loop over the table, in the order of its keys.\<close>

fun identify_in :: "(string \<times> rexp list) list \<Rightarrow> string \<Rightarrow> string \<times> string option" where
  "identify_in [] url = (''unknown'', None)"
| "identify_in ((link_type, patterns) # table) url =
     (case first_match patterns url of
        Some platform_id \<Rightarrow> (link_type, platform_id)
      | None \<Rightarrow> identify_in table url)"

definition identify_link_type :: "string \<Rightarrow> string \<times> string option" where
  "identify_link_type url = identify_in link_patterns url"

definition parser_mapping :: "(string \<times> string) list" where
  "parser_mapping =
     [(''bilibili'', ''bilibili_parser''), (''youtube'', ''youtube_parser''),
      (''vimeo'', ''vimeo_parser''), (''douyin'', ''douyin_parser''),
      (''kuaishou'', ''kuaishou_parser''), (''direct_video'', ''direct_downloader''),
      (''direct_audio'', ''direct_downloader''), (''unknown'', ''generic_parser'')]"

definition get_parser_name :: "string \<Rightarrow> string" where
  "get_parser_name link_type =
     (case map_of parser_mapping link_type of Some p \<Rightarrow> p | None \<Rightarrow> ''generic_parser'')"

text \<open>One entry of \<open>classified_links\<close>.\<close>

record link =
  l_url :: string
  l_type :: string
  l_platform_id :: "string option"
  l_parser :: string

definition priority_order :: "string list" where
  "priority_order = [''direct_video'', ''direct_audio'', ''bilibili'', ''youtube'', ''vimeo'',
                     ''douyin'', ''kuaishou'', ''unknown'']"

text \<open>
  The two nested loops of \<open>_select_primary_link\<close>: for each priority type in turn, the
  first link of that type. \<open>None\<close> stands for falling out of both loops.
\<close>

fun select_by_priority :: "string list \<Rightarrow> link list \<Rightarrow> link option" where
  "select_by_priority [] classified_links = None"
| "select_by_priority (priority_type # types) classified_links =
     (case find (\<lambda>link. l_type link = priority_type) classified_links of
        Some link \<Rightarrow> Some link
      | None \<Rightarrow> select_by_priority types classified_links)"

definition select_primary_link :: "link list \<Rightarrow> link option" where
  "select_primary_link classified_links =
     (case classified_links of
        [] \<Rightarrow> None
      | first # _ \<Rightarrow>
          (case select_by_priority priority_order classified_links of
             Some link \<Rightarrow> Some link
           | None \<Rightarrow> Some first))"

subsection \<open>\<open>classify_link\<close>\<close>

text \<open>
  The two error texts of \<open>classify_link\<close>: the fixed message of the no-link branch (in
  the source a Chinese sentence, "no link found"), and \<open>str(e)\<close> of the \<open>except\<close> branch.
\<close>

datatype classify_error = No_Link_Found | Classify_Exception string

record classification =
  success :: bool
  error :: "classify_error option"
  links :: "link list"
  primary_link :: "link option"
  total_links :: "nat option"

definition classify_one :: "string \<Rightarrow> link" where
  "classify_one url =
     (let (link_type, platform_id) = identify_link_type url
      in \<lparr>l_url = url, l_type = link_type, l_platform_id = platform_id,
          l_parser = get_parser_name link_type\<rparr>)"

text \<open>
  The \<open>try\<close> block. None of its operations raises on a string input (matching is total,
  and \<open>group(1)\<close> is only taken of patterns that have a group), so the \<open>except\<close> branch
  has no counterpart here.
\<close>

definition classify_link :: "string \<Rightarrow> classification" where
  "classify_link input_text =
     (let found = extract_links input_text
      in if found = []
         then \<lparr>success = False, error = Some No_Link_Found, links = [],
               primary_link = None, total_links = None\<rparr>
         else (let classified_links = map classify_one found;
                   primary = select_primary_link classified_links
               in \<lparr>success = True, error = None, links = classified_links,
                   primary_link = primary, total_links = Some (length found)\<rparr>))"

subsection \<open>Extraction and URL-shaped substrings\<close>

lemma extract_from_empty_iff:
  "extract_from s = [] \<longleftrightarrow> (\<forall>t. suffix t s \<longrightarrow> re_match url_pattern t = None)"
proof (induction s rule: extract_from.induct)
  case 1
  have "re_match url_pattern [] = None"
    by (simp add: re_match_def url_pattern_def scheme_def)
  then show ?case by simp
next
  case (2 x xs)
  show ?case
  proof (cases "re_match url_pattern (x # xs)")
    case None
    with "2.IH"(1) show ?thesis by (auto simp: suffix_Cons)
  next
    case (Some m)
    then have "extract_from (x # xs) \<noteq> []" by (cases m) simp
    moreover have "suffix (x # xs) (x # xs)" by simp
    ultimately show ?thesis using Some by auto
  qed
qed

lemma url_shaped_prefix_matches:
  assumes "url_shaped m"
  shows "re_match url_pattern (m @ post) \<noteq> None"
proof -
  from assms have "([], post) \<in> set (bt url_pattern ([], m @ post))"
    by (auto simp: bt_url_pattern_set simp del: bt.simps)
  then show ?thesis by (auto simp: re_match_None_iff)
qed

lemma extract_links_empty_iff:
  "extract_links text = [] \<longleftrightarrow> \<not> has_url_shaped_substring text"
proof
  assume empty: "extract_links text = []"
  show "\<not> has_url_shaped_substring text"
  proof
    assume "has_url_shaped_substring text"
    then obtain pre m post where tx: "text = pre @ m @ post" and m: "url_shaped m"
      by (auto simp: has_url_shaped_substring_def)
    have "suffix (m @ post) text" by (simp add: tx suffix_def)
    with empty have "re_match url_pattern (m @ post) = None"
      by (simp add: extract_links_def extract_from_empty_iff)
    with url_shaped_prefix_matches [OF m, of post] show False by simp
  qed
next
  assume none: "\<not> has_url_shaped_substring text"
  have "re_match url_pattern t = None" if "suffix t text" for t
  proof (cases "re_match url_pattern t")
    case None
    then show ?thesis .
  next
    case (Some r)
    obtain c rest where "r = (c, rest)" by (cases r)
    with Some url_match_consumes obtain m where "url_shaped m" "t = m @ rest" by blast
    moreover from that obtain pre where "text = pre @ t" by (auto simp: suffix_def)
    ultimately have "has_url_shaped_substring text"
      by (auto simp: has_url_shaped_substring_def)
    with none show ?thesis by simp
  qed
  then show "extract_links text = []"
    by (simp add: extract_links_def extract_from_empty_iff)
qed

subsection \<open>Primary selection follows the priority order\<close>

lemma select_by_priority_first_present:
  assumes "i < length ps"
    and "\<exists>l\<in>set ls. l_type l = ps ! i"
    and "\<forall>j<i. \<forall>l\<in>set ls. l_type l \<noteq> ps ! j"
  shows "select_by_priority ps ls = find (\<lambda>l. l_type l = ps ! i) ls"
  using assms
proof (induction ps arbitrary: i)
  case Nil
  then show ?case by simp
next
  case (Cons p ps)
  show ?case
  proof (cases i)
    case 0
    with Cons.prems(2) obtain l where "find (\<lambda>l. l_type l = p) ls = Some l"
      by (cases "find (\<lambda>l. l_type l = p) ls") (auto simp: find_None_iff)
    with 0 show ?thesis by simp
  next
    case (Suc k)
    with Cons.prems(3) have "\<forall>l\<in>set ls. l_type l \<noteq> p" by fastforce
    then have none: "find (\<lambda>l. l_type l = p) ls = None" by (simp add: find_None_iff)
    have "k < length ps" using Cons.prems(1) Suc by simp
    moreover have "\<exists>l\<in>set ls. l_type l = ps ! k" using Cons.prems(2) Suc by simp
    moreover have "\<forall>j<k. \<forall>l\<in>set ls. l_type l \<noteq> ps ! j"
    proof (intro allI impI)
      fix j assume "j < k"
      then have "Suc j < i" using Suc by simp
      with Cons.prems(3) have "\<forall>l\<in>set ls. l_type l \<noteq> (p # ps) ! Suc j" by blast
      then show "\<forall>l\<in>set ls. l_type l \<noteq> ps ! j" by simp
    qed
    ultimately have "select_by_priority ps ls = find (\<lambda>l. l_type l = ps ! k) ls"
      by (rule Cons.IH)
    with none Suc show ?thesis by simp
  qed
qed

lemma select_primary_by_priority:
  assumes "i < length priority_order"
    and "\<exists>l\<in>set ls. l_type l = priority_order ! i"
    and "\<forall>j<i. \<forall>l\<in>set ls. l_type l \<noteq> priority_order ! j"
  shows "select_primary_link ls = find (\<lambda>l. l_type l = priority_order ! i) ls"
proof -
  have sel: "select_by_priority priority_order ls = find (\<lambda>l. l_type l = priority_order ! i) ls"
    using assms by (rule select_by_priority_first_present)
  from assms(2) obtain l where "find (\<lambda>l. l_type l = priority_order ! i) ls = Some l"
    by (cases "find (\<lambda>l. l_type l = priority_order ! i) ls") (auto simp: find_None_iff)
  moreover from assms(2) obtain x xs where "ls = x # xs" by (cases ls) auto
  ultimately show ?thesis using sel by (simp add: select_primary_link_def)
qed

lemma select_primary_direct_video:
  assumes "a \<in> set ls" "l_type a = ''direct_video''"
  shows "\<exists>p. select_primary_link ls = Some p \<and> l_type p = ''direct_video'' \<and> p \<in> set ls"
proof -
  have "0 < length priority_order" by (simp add: priority_order_def)
  moreover have "\<exists>l\<in>set ls. l_type l = priority_order ! 0"
    using assms by (auto simp: priority_order_def)
  ultimately have "select_primary_link ls = find (\<lambda>l. l_type l = priority_order ! 0) ls"
    by (rule select_primary_by_priority) simp
  moreover obtain p where "find (\<lambda>l. l_type l = priority_order ! 0) ls = Some p"
    using assms by (cases "find (\<lambda>l. l_type l = priority_order ! 0) ls")
      (auto simp: find_None_iff priority_order_def)
  ultimately show ?thesis
    by (auto simp: find_Some_iff priority_order_def)
qed

subsection \<open>Every tag is one of the eight, and the primary is never missing\<close>

lemma identify_in_tag: "fst (identify_in table url) \<in> insert ''unknown'' (fst ` set table)"
  by (induction table url rule: identify_in.induct) (auto split: option.splits)

lemma identify_tag_in_priority_order: "fst (identify_link_type url) \<in> set priority_order"
proof -
  have "insert ''unknown'' (fst ` set link_patterns) \<subseteq> set priority_order"
    by (simp add: link_patterns_def priority_order_def)
  with identify_in_tag [of link_patterns url] show ?thesis
    unfolding identify_link_type_def by blast
qed

lemma classify_one_type: "l_type (classify_one url) \<in> set priority_order"
  using identify_tag_in_priority_order [of url]
  by (cases "identify_link_type url") (simp add: classify_one_def)

lemma select_by_priority_finds:
  assumes "l \<in> set ls" "l_type l \<in> set ps"
  shows "\<exists>p. select_by_priority ps ls = Some p \<and> p \<in> set ls"
  using assms
proof (induction ps)
  case Nil
  then show ?case by simp
next
  case (Cons q ps)
  show ?case
  proof (cases "find (\<lambda>l. l_type l = q) ls")
    case None
    then have "l_type l \<noteq> q" using Cons.prems(1) by (auto simp: find_None_iff)
    with Cons None show ?thesis by simp
  next
    case (Some p)
    then have "p \<in> set ls" by (auto simp: find_Some_iff)
    with Some show ?thesis by simp
  qed
qed

lemma select_primary_never_none: "ls \<noteq> [] \<Longrightarrow> select_primary_link ls \<noteq> None"
  by (cases ls) (auto simp: select_primary_link_def split: option.splits)


lemma select_by_priority_foreign:
  "\<forall>l\<in>set ls. l_type l \<notin> set ps \<Longrightarrow> select_by_priority ps ls = None"
proof (induction ps)
  case Nil
  show ?case by simp
next
  case (Cons q ps)
  then have "find (\<lambda>l. l_type l = q) ls = None" by (auto simp: find_None_iff)
  with Cons show ?case by simp
qed

lemma classify_link_found:
  assumes "extract_links text \<noteq> []"
  shows "classify_link text =
    \<lparr>success = True, error = None, links = map classify_one (extract_links text),
     primary_link = select_primary_link (map classify_one (extract_links text)),
     total_links = Some (length (extract_links text))\<rparr>"
  using assms by (simp add: classify_link_def Let_def)

subsection \<open>Concrete inputs\<close>

definition link_bili :: link where
  "link_bili = \<lparr>l_url = ''https://www.bilibili.com/video/BV1xx411c7mD'', l_type = ''bilibili'',
                l_platform_id = Some ''BV1xx411c7mD'', l_parser = ''bilibili_parser''\<rparr>"

definition link_direct :: link where
  "link_direct = \<lparr>l_url = ''https://cdn.example.com/a.mp4'', l_type = ''direct_video'',
                  l_platform_id = Some ''mp4'', l_parser = ''direct_downloader''\<rparr>"

definition text_bili_first :: string where
  "text_bili_first =
     ''watch https://www.bilibili.com/video/BV1xx411c7mD or https://cdn.example.com/a.mp4''"

definition text_direct_first :: string where
  "text_direct_first =
     ''watch https://cdn.example.com/a.mp4 or https://www.bilibili.com/video/BV1xx411c7mD''"

definition text_spec_example :: string where
  "text_spec_example = ''check this out https://www.bilibili.com/video/BV1xx411c7mD cool''"

definition text_without_url :: string where
  "text_without_url = ''no link: http:// alone, or www.bilibili.com/video/BV1xx411c7mD''"

lemmas eval_extract = extract_links_def re_match_def url_pattern_def scheme_def url_body_def

lemmas eval_identify = identify_link_type_def link_patterns_def re_match_def scheme_def
  www_def alnum_def alnum_dash_def not_slash_def video_ext_def audio_ext_def query_tail_def
  group_def

lemma classify_one_bili:
  "classify_one ''https://www.bilibili.com/video/BV1xx411c7mD'' = link_bili"
  by (simp add: classify_one_def eval_identify get_parser_name_def parser_mapping_def
      link_bili_def)

lemma classify_one_direct: "classify_one ''https://cdn.example.com/a.mp4'' = link_direct"
  by (simp add: classify_one_def eval_identify get_parser_name_def parser_mapping_def
      link_direct_def)

lemma extract_bili_first:
  "extract_links text_bili_first =
     [''https://www.bilibili.com/video/BV1xx411c7mD'', ''https://cdn.example.com/a.mp4'']"
  by (simp add: text_bili_first_def eval_extract)

lemma extract_direct_first:
  "extract_links text_direct_first =
     [''https://cdn.example.com/a.mp4'', ''https://www.bilibili.com/video/BV1xx411c7mD'']"
  by (simp add: text_direct_first_def eval_extract)

lemma extract_spec_example:
  "extract_links text_spec_example = [''https://www.bilibili.com/video/BV1xx411c7mD'']"
  by (simp add: text_spec_example_def eval_extract)

lemma extract_without_url: "extract_links text_without_url = []"
  by (simp add: text_without_url_def eval_extract)

text \<open>
  Claim C3. The priority order is the one the specification lists; whenever the
  classified links hold a link tagged direct_video and one tagged bilibili, in whatever
  positions, the primary is tagged direct_video; and in general the primary is the
  first link, in extraction order, of the highest-priority tag present.
\<close>

theorem primary_link_follows_priority_order:
  "priority_order = [''direct_video'', ''direct_audio'', ''bilibili'', ''youtube'', ''vimeo'',
                     ''douyin'', ''kuaishou'', ''unknown''] \<and>
   (a \<in> set ls \<and> l_type a = ''direct_video'' \<and> b \<in> set ls \<and> l_type b = ''bilibili'' \<longrightarrow>
      (\<exists>p. select_primary_link ls = Some p \<and> l_type p = ''direct_video'' \<and> p \<in> set ls)) \<and>
   (i < length priority_order \<and> (\<exists>l\<in>set ls. l_type l = priority_order ! i) \<and>
    (\<forall>j<i. \<forall>l\<in>set ls. l_type l \<noteq> priority_order ! j) \<longrightarrow>
      select_primary_link ls = find (\<lambda>l. l_type l = priority_order ! i) ls)"
proof (intro conjI impI)
  show "priority_order = [''direct_video'', ''direct_audio'', ''bilibili'', ''youtube'',
    ''vimeo'', ''douyin'', ''kuaishou'', ''unknown'']"
    by (simp add: priority_order_def)
next
  assume "a \<in> set ls \<and> l_type a = ''direct_video'' \<and> b \<in> set ls \<and> l_type b = ''bilibili''"
  then show "\<exists>p. select_primary_link ls = Some p \<and> l_type p = ''direct_video'' \<and> p \<in> set ls"
    using select_primary_direct_video [of a ls] by blast
next
  assume "i < length priority_order \<and> (\<exists>l\<in>set ls. l_type l = priority_order ! i) \<and>
    (\<forall>j<i. \<forall>l\<in>set ls. l_type l \<noteq> priority_order ! j)"
  then show "select_primary_link ls = find (\<lambda>l. l_type l = priority_order ! i) ls"
    using select_primary_by_priority [of i ls] by blast
qed

theorem primary_link_priority_witness:
  "links (classify_link text_bili_first) = [link_bili, link_direct] \<and>
   links (classify_link text_direct_first) = [link_direct, link_bili] \<and>
   l_type link_direct = ''direct_video'' \<and> l_type link_bili = ''bilibili'' \<and>
   (0::nat) < length priority_order \<and>
   primary_link (classify_link text_bili_first) = Some link_direct \<and>
   primary_link (classify_link text_direct_first) = Some link_direct"
proof -
  have l1: "links (classify_link text_bili_first) = [link_bili, link_direct]"
    by (simp add: classify_link_found extract_bili_first classify_one_bili classify_one_direct)
  have l2: "links (classify_link text_direct_first) = [link_direct, link_bili]"
    by (simp add: classify_link_found extract_direct_first classify_one_bili
        classify_one_direct)
  have td: "l_type link_direct = ''direct_video''" by (simp add: link_direct_def)
  have tb: "l_type link_bili = ''bilibili''" by (simp add: link_bili_def)
  have ne: "link_bili \<noteq> link_direct" by (simp add: link_bili_def link_direct_def)
  have p0: "(0::nat) < length priority_order"
    by (simp add: priority_order_def)
  have "\<exists>p. select_primary_link [link_bili, link_direct] = Some p \<and>
      l_type p = ''direct_video'' \<and> p \<in> set [link_bili, link_direct]"
    using primary_link_follows_priority_order [of link_direct "[link_bili, link_direct]"
        link_bili 0] td tb by simp
  then have s1: "select_primary_link [link_bili, link_direct] = Some link_direct"
    using tb by auto
  have "\<exists>p. select_primary_link [link_direct, link_bili] = Some p \<and>
      l_type p = ''direct_video'' \<and> p \<in> set [link_direct, link_bili]"
    using primary_link_follows_priority_order [of link_direct "[link_direct, link_bili]"
        link_bili 0] td tb by simp
  then have s2: "select_primary_link [link_direct, link_bili] = Some link_direct"
    using tb by auto
  have p1: "primary_link (classify_link text_bili_first) = Some link_direct"
    using s1
    by (simp add: classify_link_found extract_bili_first classify_one_bili classify_one_direct)
  have p2: "primary_link (classify_link text_direct_first) = Some link_direct"
    using s2
    by (simp add: classify_link_found extract_direct_first classify_one_bili
        classify_one_direct)
  from l1 l2 td tb p0 p1 p2 show ?thesis by simp
qed

text \<open>
  Claim C9. A text with no URL-shaped substring is classified without an exception, as
  the failure record with no primary link and an empty list of links.
\<close>

theorem no_url_is_soft_failure:
  "\<not> has_url_shaped_substring text \<Longrightarrow>
   classify_link text =
     \<lparr>success = False, error = Some No_Link_Found, links = [], primary_link = None,
      total_links = None\<rparr>"
  using extract_links_empty_iff [of "text"] by (simp add: classify_link_def)

theorem no_url_is_soft_failure_witness:
  "\<not> has_url_shaped_substring text_without_url \<and>
   primary_link (classify_link text_without_url) = None \<and>
   links (classify_link text_without_url) = [] \<and>
   \<not> success (classify_link text_without_url)"
proof -
  have h: "\<not> has_url_shaped_substring text_without_url"
    using extract_links_empty_iff [of text_without_url] extract_without_url by simp
  from no_url_is_soft_failure [OF h] h show ?thesis by simp
qed

text \<open>
  Claim C10. When at least one link is extracted, classification succeeds and its
  primary link is one of the classified links. Every URL is tagged with one of the eight
  entries of the priority order; on any non-empty list the selection yields a link; and
  for links whose tags are all outside the priority order it is the first link.
\<close>

theorem extracted_link_gives_primary:
  "(extract_links text \<noteq> [] \<longrightarrow>
      success (classify_link text) \<and>
      links (classify_link text) = map classify_one (extract_links text) \<and>
      (\<exists>p. primary_link (classify_link text) = Some p \<and> p \<in> set (links (classify_link text)))) \<and>
   fst (identify_link_type url) \<in> set priority_order \<and>
   length priority_order = 8 \<and>
   (ls \<noteq> [] \<longrightarrow> select_primary_link ls \<noteq> None) \<and>
   ((\<forall>l\<in>set (x # xs). l_type l \<notin> set priority_order) \<longrightarrow>
      select_primary_link (x # xs) = Some x)"
proof (intro conjI impI)
  assume found: "extract_links text \<noteq> []"
  show "success (classify_link text)"
    by (simp add: classify_link_found [OF found])
  show "links (classify_link text) = map classify_one (extract_links text)"
    by (simp add: classify_link_found [OF found])
  from found obtain u us where us: "extract_links text = u # us"
    by (cases "extract_links text") auto
  have "classify_one u \<in> set (map classify_one (extract_links text))"
    by (simp add: us)
  then obtain p where
    p: "select_by_priority priority_order (map classify_one (extract_links text)) = Some p"
      "p \<in> set (map classify_one (extract_links text))"
    using select_by_priority_finds classify_one_type by blast
  then have "select_primary_link (map classify_one (extract_links text)) = Some p"
    by (simp add: select_primary_link_def us)
  with p(2) show "\<exists>p. primary_link (classify_link text) = Some p \<and>
      p \<in> set (links (classify_link text))"
    by (simp add: classify_link_found [OF found])
next
  show "fst (identify_link_type url) \<in> set priority_order"
    by (rule identify_tag_in_priority_order)
next
  show "length priority_order = 8" by (simp add: priority_order_def)
next
  assume "ls \<noteq> []"
  then show "select_primary_link ls \<noteq> None" by (rule select_primary_never_none)
next
  assume "\<forall>l\<in>set (x # xs). l_type l \<notin> set priority_order"
  then have "select_by_priority priority_order (x # xs) = None"
    by (rule select_by_priority_foreign)
  then show "select_primary_link (x # xs) = Some x"
    by (simp add: select_primary_link_def)
qed

definition link_foreign :: link where
  "link_foreign = \<lparr>l_url = ''https://example.org/clip'', l_type = ''tiktok'',
                   l_platform_id = None, l_parser = ''generic_parser''\<rparr>"

theorem extracted_link_gives_primary_witness:
  "extract_links text_spec_example \<noteq> [] \<and>
   success (classify_link text_spec_example) \<and>
   links (classify_link text_spec_example) = [link_bili] \<and>
   primary_link (classify_link text_spec_example) = Some link_bili \<and>
   l_type link_foreign \<notin> set priority_order \<and>
   select_primary_link [link_foreign, link_bili] \<noteq> None"
proof -
  have found: "extract_links text_spec_example \<noteq> []"
    by (simp add: extract_spec_example)
  have ne: "[link_foreign, link_bili] \<noteq> []" by simp
  have foreign: "l_type link_foreign \<notin> set priority_order"
    by (simp add: link_foreign_def priority_order_def)
  note inst = extracted_link_gives_primary [of text_spec_example
      "''https://www.bilibili.com/video/BV1xx411c7mD''" "[link_foreign, link_bili]"
      link_foreign "[]"]
  from inst found have s: "success (classify_link text_spec_example)" by blast
  from inst found have l: "links (classify_link text_spec_example) = [link_bili]"
    by (simp add: extract_spec_example classify_one_bili)
  from inst found obtain p where "primary_link (classify_link text_spec_example) = Some p"
    "p \<in> set (links (classify_link text_spec_example))" by blast
  with l have pr: "primary_link (classify_link text_spec_example) = Some link_bili" by simp
  from inst ne have "select_primary_link [link_foreign, link_bili] \<noteq> None" by blast
  with found s l pr foreign show ?thesis by simp
qed

section \<open>Direct downloader: \<open>DirectDownloader.download_file\<close>\<close>

subsection \<open>The environment: file system, network, clock\<close>

text \<open>
  Files are byte strings kept in a map from paths; only \<open>download_file\<close> changes the
  map while it runs. The network is a script: what attempt number \<open>k\<close> (from 0) meets
  when it sends its request. The request headers only travel to the server, so they
  are part of what the script answers and are not modelled.
\<close>

type_synonym path = string

type_synonym files = "path \<rightharpoonup> string"

text \<open>
  The exceptions of \<open>requests\<close> that \<open>requests.get\<close> and \<open>iter_content\<close> raise, by the
  \<open>except\<close> clause that catches them; the argument is \<open>str(e)\<close>. A failing
  \<open>f.write\<close> is an \<open>Other_Exception\<close> at the end of the chunks written before it.
\<close>

datatype net_exception = Timeout string | Connection_Error string | Other_Exception string

text \<open>
  The \<open>content-length\<close> header by what \<open>int()\<close> makes of it: a number, the empty string
  (which \<open>if content_length\<close> skips), or a text on which \<open>int()\<close> raises \<open>ValueError\<close>.
\<close>

datatype cl_header = Cl_Int int | Cl_Empty | Cl_Invalid string

datatype stream_end = Stream_Ok | Stream_Raises net_exception

record response =
  status :: nat
  content_length :: "cl_header option"
  chunks :: "string list"
  ending :: stream_end

datatype get_reply = Get_Raises net_exception | Get_Response response

record dl_env =
  net :: "nat \<Rightarrow> get_reply"
  open_ok :: "nat \<Rightarrow> bool"
  now :: nat

record dl_config =
  download_dir :: string
  max_file_size :: int

record dl_state =
  files :: files
  dl_slept :: "int list"
  dl_requests :: nat

subsection \<open>Results\<close>

text \<open>
  The \<open>error\<close> texts of the failure results (Chinese sentences in the source), one
  constructor per text, with the values the text is formatted from.
\<close>

datatype http_msg = Forbidden_403 | Not_Found_404 | Too_Many_Requests_429 | Http_Status nat

datatype dl_error =
    Declared_Size_Over_Limit int
  | Downloaded_Size_Over_Limit int
  | Zero_Size
  | Missing_After_Download
  | Http_Failure http_msg
  | Timed_Out string
  | Connection_Failed string
  | Unexpected string
  | Retries_Exhausted int

datatype dl_message = Already_Exists | Completed

record download =
  file_path :: path
  filename :: string
  size_bytes :: nat
  message :: dl_message

datatype dl_result = Succeeded download | Failed dl_error string

subsection \<open>\<open>_extract_filename\<close> and the destination path\<close>

fun show_nat :: "nat \<Rightarrow> string" where
  "show_nat n =
     (if n < 10 then [char_of (48 + n)] else show_nat (n div 10) @ [char_of (48 + n mod 10)])"

declare show_nat.simps [simp del]

definition extract_filename :: "nat \<Rightarrow> string \<Rightarrow> string" where
  "extract_filename time url =
     (let clean_url = takeWhile (\<lambda>c. c \<noteq> CHR ''?'') url;
          name = rev (takeWhile (\<lambda>c. c \<noteq> CHR ''/'') (rev clean_url))
      in if name = [] \<or> CHR ''.'' \<notin> set name
         then ''download_'' @ show_nat time @ ''.mp4''
         else name)"

text \<open>\<open>os.path.join\<close> of two components, on POSIX.\<close>

definition os_path_join :: "string \<Rightarrow> string \<Rightarrow> path" where
  "os_path_join dir name =
     (if name \<noteq> [] \<and> hd name = CHR ''/'' then name
      else if dir = [] \<or> last dir = CHR ''/'' then dir @ name
      else dir @ ''/'' @ name)"

text \<open>\<open>if not filename: filename = self._extract_filename(url)\<close>\<close>

definition resolve_filename :: "dl_env \<Rightarrow> string \<Rightarrow> string option \<Rightarrow> string" where
  "resolve_filename env url name =
     (case name of
        None \<Rightarrow> extract_filename (now env) url
      | Some f \<Rightarrow> if f = [] then extract_filename (now env) url else f)"

subsection \<open>One attempt: the \<open>try\<close> block\<close>

text \<open>What the \<open>except\<close> clauses tell apart.\<close>

datatype dl_exception = Http_Error nat | Net net_exception

datatype try_outcome = Returned dl_result | Raised dl_exception

text \<open>
  The \<open>for chunk in response.iter_content(...)\<close> loop: an empty chunk is skipped, a
  chunk is appended to the file, and when the running count passes the limit the file is
  removed and the loop returns the count. \<open>Inr\<close> is the loop running to the end of the
  chunks.
\<close>

definition append_file :: "files \<Rightarrow> path \<Rightarrow> string \<Rightarrow> files" where
  "append_file fs p chunk = fs(p \<mapsto> (case fs p of None \<Rightarrow> chunk | Some old \<Rightarrow> old @ chunk))"

fun write_chunks :: "int \<Rightarrow> path \<Rightarrow> string list \<Rightarrow> int \<Rightarrow> files \<Rightarrow> (int \<times> files) + files" where
  "write_chunks limit p [] downloaded_size fs = Inr fs"
| "write_chunks limit p (chunk # rest) downloaded_size fs =
     (if chunk \<noteq> []
      then (let fs' = append_file fs p chunk;
                downloaded_size' = downloaded_size + int (length chunk)
            in if downloaded_size' > limit
               then Inl (downloaded_size', fs'(p := None))
               else write_chunks limit p rest downloaded_size' fs')
      else write_chunks limit p rest downloaded_size fs)"

text \<open>
  From \<open>open(file_path, 'wb')\<close> to the end of the \<open>try\<close> block. Opening creates the file
  empty (or truncates it); an exception inside the \<open>with\<close> block closes the file and
  leaves it where it is.
\<close>

definition download_body :: "dl_config \<Rightarrow> string \<Rightarrow> path \<Rightarrow> string \<Rightarrow> response \<Rightarrow> files \<Rightarrow>
    try_outcome \<times> files" where
  "download_body cfg url p name resp fs =
     (case write_chunks (max_file_size cfg) p (chunks resp) 0 (fs(p \<mapsto> [])) of
        Inl (downloaded_size, fs') \<Rightarrow>
          (Returned (Failed (Downloaded_Size_Over_Limit downloaded_size) url), fs')
      | Inr fs' \<Rightarrow>
          (case ending resp of
             Stream_Raises e \<Rightarrow> (Raised (Net e), fs')
           | Stream_Ok \<Rightarrow>
               (case fs' p of
                  Some content \<Rightarrow>
                    (let actual_size = length content
                     in if actual_size = 0
                        then (Returned (Failed Zero_Size url), fs'(p := None))
                        else (Returned (Succeeded \<lparr>file_path = p, filename = name,
                                size_bytes = actual_size, message = Completed\<rparr>), fs'))
                | None \<Rightarrow> (Returned (Failed Missing_After_Download url), fs'))))"

text \<open>
  The whole \<open>try\<close> block of attempt number \<open>attempt\<close>. It gives back the outcome, the
  value of the variable \<open>filename\<close> and the state.
\<close>

definition try_block :: "dl_config \<Rightarrow> dl_env \<Rightarrow> string \<Rightarrow> nat \<Rightarrow> string option \<Rightarrow> dl_state \<Rightarrow>
    try_outcome \<times> string option \<times> dl_state" where
  "try_block cfg env url attempt name0 st =
     (let name = resolve_filename env url name0;
          p = os_path_join (download_dir cfg) name
      in case files st p of
           Some content \<Rightarrow>
             (Returned (Succeeded \<lparr>file_path = p, filename = name,
                size_bytes = length content, message = Already_Exists\<rparr>), Some name, st)
         | None \<Rightarrow>
             (let st1 = st\<lparr>dl_requests := Suc (dl_requests st)\<rparr>
              in case net env attempt of
                   Get_Raises e \<Rightarrow> (Raised (Net e), Some name, st1)
                 | Get_Response resp \<Rightarrow>
                     if 400 \<le> status resp \<and> status resp < 600
                     then (Raised (Http_Error (status resp)), Some name, st1)
                     else (case content_length resp of
                             Some (Cl_Invalid v) \<Rightarrow>
                               (Raised (Net (Other_Exception v)), Some name, st1)
                           | Some (Cl_Int file_size) \<Rightarrow>
                               if file_size > max_file_size cfg
                               then (Returned (Failed (Declared_Size_Over_Limit file_size) url),
                                     Some name, st1)
                               else if open_ok env attempt
                               then (let (r, fs') = download_body cfg url p name resp (files st1)
                                     in (r, Some name, st1\<lparr>files := fs'\<rparr>))
                               else (Raised (Net (Other_Exception ''open'')), Some name, st1)
                           | _ \<Rightarrow>
                               if open_ok env attempt
                               then (let (r, fs') = download_body cfg url p name resp (files st1)
                                     in (r, Some name, st1\<lparr>files := fs'\<rparr>))
                               else (Raised (Net (Other_Exception ''open'')), Some name, st1))))"

subsection \<open>The \<open>except\<close> clauses and the retry loop\<close>

definition dl_max_retries :: int where
  "dl_max_retries = 3"

definition dl_retry_delay :: int where
  "dl_retry_delay = 2"

datatype handled = Retry_After int | Give_Up dl_error

definition handle_exception :: "nat \<Rightarrow> dl_exception \<Rightarrow> handled" where
  "handle_exception attempt e =
     (case e of
        Http_Error status_code \<Rightarrow>
          if status_code = 403
          then (if int attempt < dl_max_retries - 1 then Retry_After dl_retry_delay
                else Give_Up (Http_Failure Forbidden_403))
          else if status_code = 404 then Give_Up (Http_Failure Not_Found_404)
          else if status_code = 429
          then (if int attempt < dl_max_retries - 1 then Retry_After (dl_retry_delay * 2)
                else Give_Up (Http_Failure Too_Many_Requests_429))
          else Give_Up (Http_Failure (Http_Status status_code))
      | Net (Timeout t) \<Rightarrow>
          if int attempt < dl_max_retries - 1 then Retry_After dl_retry_delay
          else Give_Up (Timed_Out t)
      | Net (Connection_Error t) \<Rightarrow>
          if int attempt < dl_max_retries - 1 then Retry_After dl_retry_delay
          else Give_Up (Connection_Failed t)
      | Net (Other_Exception t) \<Rightarrow> Give_Up (Unexpected t))"

text \<open>
  \<open>for attempt in range(max_retries)\<close>: \<open>continue\<close> is the recursive call after
  \<open>time.sleep\<close>, recorded in \<open>dl_slept\<close>; the empty list is the statement after the loop.
\<close>

fun download_loop :: "dl_config \<Rightarrow> dl_env \<Rightarrow> string \<Rightarrow> nat list \<Rightarrow> string option \<Rightarrow> dl_state \<Rightarrow>
    dl_result \<times> dl_state" where
  "download_loop cfg env url [] name st = (Failed (Retries_Exhausted dl_max_retries) url, st)"
| "download_loop cfg env url (attempt # rest) name st =
     (case try_block cfg env url attempt name st of
        (Returned r, name', st') \<Rightarrow> (r, st')
      | (Raised e, name', st') \<Rightarrow>
          (case handle_exception attempt e of
             Give_Up err \<Rightarrow> (Failed err url, st')
           | Retry_After delay \<Rightarrow>
               download_loop cfg env url rest name' (st'\<lparr>dl_slept := dl_slept st' @ [delay]\<rparr>)))"

definition download_file :: "dl_config \<Rightarrow> dl_env \<Rightarrow> string \<Rightarrow> string option \<Rightarrow> dl_state \<Rightarrow>
    dl_result \<times> dl_state" where
  "download_file cfg env url name st =
     download_loop cfg env url [0..<nat dl_max_retries] name st"


subsection \<open>Replies that are retried before anything is written\<close>

text \<open>
  An attempt goes on to the next one with the destination untouched exactly when its
  request times out or fails to connect, or is answered 403 or 429: these are the
  \<open>continue\<close> paths taken before \<open>open\<close>.
\<close>

fun pre_open_retry :: "get_reply \<Rightarrow> bool" where
  "pre_open_retry (Get_Raises (Timeout t)) = True"
| "pre_open_retry (Get_Raises (Connection_Error t)) = True"
| "pre_open_retry (Get_Raises (Other_Exception t)) = False"
| "pre_open_retry (Get_Response r) = (status r = 403 \<or> status r = 429)"

definition destination :: "dl_config \<Rightarrow> dl_env \<Rightarrow> string \<Rightarrow> string option \<Rightarrow> path" where
  "destination cfg env url name = os_path_join (download_dir cfg) (resolve_filename env url name)"

lemma extract_filename_nonempty: "extract_filename t url \<noteq> []"
  by (simp add: extract_filename_def Let_def)

lemma resolve_filename_idem:
  "resolve_filename env url (Some (resolve_filename env url name)) = resolve_filename env url name"
  by (simp add: resolve_filename_def extract_filename_nonempty split: option.split)

lemma destination_idem:
  "destination cfg env url (Some (resolve_filename env url name)) = destination cfg env url name"
  by (simp add: destination_def resolve_filename_idem)

lemma try_block_pre_open_retry:
  assumes "pre_open_retry (net env a)"
    and "files st (destination cfg env url name) = None"
    and "int a < dl_max_retries - 1"
  shows "\<exists>e d. try_block cfg env url a name st =
           (Raised e, Some (resolve_filename env url name),
            st\<lparr>dl_requests := Suc (dl_requests st)\<rparr>) \<and>
         handle_exception a e = Retry_After d"
proof (cases "net env a")
  case (Get_Raises e)
  with assms show ?thesis
    by (cases e) (simp_all add: try_block_def destination_def handle_exception_def Let_def)
next
  case (Get_Response r)
  with assms show ?thesis
    by (auto simp: try_block_def destination_def handle_exception_def Let_def)
qed

lemma loop_skips_pre_open_retries:
  assumes "\<forall>i. j \<le> i \<and> i < k \<longrightarrow> pre_open_retry (net env i)"
    and "j \<le> k" and "k < n" and "int k \<le> dl_max_retries - 1"
    and "files st (destination cfg env url name) = None"
  shows "\<exists>name' st'. download_loop cfg env url [j..<n] name st =
             download_loop cfg env url [k..<n] name' st' \<and>
           destination cfg env url name' = destination cfg env url name \<and>
           files st' = files st"
  using assms
proof (induction "k - j" arbitrary: j name st)
  case 0
  then have "j = k" by simp
  then show ?case by blast
next
  case (Suc d)
  then have jk: "j < k" by simp
  with Suc.prems have "pre_open_retry (net env j)" "int j < dl_max_retries - 1" by auto
  with Suc.prems(5) obtain e dl where
    tb: "try_block cfg env url j name st =
           (Raised e, Some (resolve_filename env url name),
            st\<lparr>dl_requests := Suc (dl_requests st)\<rparr>)"
    and h: "handle_exception j e = Retry_After dl"
    using try_block_pre_open_retry by blast
  let ?name = "Some (resolve_filename env url name)"
  let ?st = "st\<lparr>dl_requests := Suc (dl_requests st), dl_slept := dl_slept st @ [dl]\<rparr>"
  have list: "[j..<n] = j # [Suc j..<n]" using jk Suc.prems(3) by (simp add: upt_conv_Cons)
  have step: "download_loop cfg env url [j..<n] name st =
      download_loop cfg env url [Suc j..<n] ?name ?st"
    by (simp add: list tb h)
  have "d = k - Suc j" using Suc.hyps(2) by simp
  moreover have "\<forall>i. Suc j \<le> i \<and> i < k \<longrightarrow> pre_open_retry (net env i)"
    using Suc.prems(1) by simp
  moreover have "Suc j \<le> k" using jk by simp
  moreover have "files ?st (destination cfg env url ?name) = None"
    using Suc.prems(5) by (simp add: destination_idem)
  ultimately obtain name' st' where
    "download_loop cfg env url [Suc j..<n] ?name ?st =
       download_loop cfg env url [k..<n] name' st'"
    "destination cfg env url name' = destination cfg env url ?name"
    "files st' = files ?st"
    using Suc.hyps(1) [of "Suc j" ?st ?name] Suc.prems(3,4) by blast
  with step show ?case by (auto simp: destination_idem)
qed

lemma try_block_declared_oversize:
  assumes "net env a = Get_Response resp"
    and "\<not> (400 \<le> status resp \<and> status resp < 600)"
    and "content_length resp = Some (Cl_Int declared)"
    and "declared > max_file_size cfg"
    and "files st (destination cfg env url name) = None"
  shows "try_block cfg env url a name st =
           (Returned (Failed (Declared_Size_Over_Limit declared) url),
            Some (resolve_filename env url name), st\<lparr>dl_requests := Suc (dl_requests st)\<rparr>)"
  using assms by (simp add: try_block_def destination_def Let_def)

text \<open>
  Claim C6. Attempt \<open>k\<close> receives a response exactly when the destination does not
  exist and every earlier attempt was retried before opening the file. If that response
  passes \<open>raise_for_status\<close> and declares a content-length over the limit, the download
  fails with the size-limit error and the file system is what it was before the call:
  nothing was written and no file was created.
\<close>

theorem declared_oversize_rejected_before_writing:
  assumes "int k < dl_max_retries"
    and "\<forall>i<k. pre_open_retry (net env i)"
    and "net env k = Get_Response resp"
    and "\<not> (400 \<le> status resp \<and> status resp < 600)"
    and "content_length resp = Some (Cl_Int declared)"
    and "declared > max_file_size cfg"
    and "files st (destination cfg env url name) = None"
  shows "fst (download_file cfg env url name st) = Failed (Declared_Size_Over_Limit declared) url \<and>
         files (snd (download_file cfg env url name st)) = files st \<and>
         files (snd (download_file cfg env url name st)) (destination cfg env url name) = None"
proof -
  let ?n = "nat dl_max_retries"
  have kn: "k < ?n" using assms(1) by simp
  have "\<forall>i. 0 \<le> i \<and> i < k \<longrightarrow> pre_open_retry (net env i)" using assms(2) by simp
  moreover have "int k \<le> dl_max_retries - 1" using assms(1) by simp
  ultimately obtain name' st' where
    skip: "download_loop cfg env url [0..<?n] name st = download_loop cfg env url [k..<?n] name' st'"
    and dest: "destination cfg env url name' = destination cfg env url name"
    and fs: "files st' = files st"
    using loop_skips_pre_open_retries [of 0 k env ?n st cfg url name] kn assms(7) by blast
  have "files st' (destination cfg env url name') = None" using dest fs assms(7) by simp
  then have "try_block cfg env url k name' st' =
      (Returned (Failed (Declared_Size_Over_Limit declared) url),
       Some (resolve_filename env url name'), st'\<lparr>dl_requests := Suc (dl_requests st')\<rparr>)"
    using try_block_declared_oversize [OF assms(3,4,5,6)] by blast
  moreover have "[k..<?n] = k # [Suc k..<?n]" using kn by (simp add: upt_conv_Cons)
  ultimately have "download_loop cfg env url [k..<?n] name' st' =
      (Failed (Declared_Size_Over_Limit declared) url, st'\<lparr>dl_requests := Suc (dl_requests st')\<rparr>)"
    by simp
  with skip fs assms(7) show ?thesis by (simp add: download_file_def)
qed


subsection \<open>Concrete runs\<close>

definition cfg0 :: dl_config where
  "cfg0 = \<lparr>download_dir = ''./downloads'', max_file_size = 1000 * 1024 * 1024\<rparr>"

definition st0 :: dl_state where
  "st0 = \<lparr>files = Map.empty, dl_slept = [], dl_requests = 0\<rparr>"

definition url0 :: string where
  "url0 = ''https://cdn.example.com/v.mp4?sig=1''"

definition path0 :: path where
  "path0 = ''./downloads/v.mp4''"

text \<open>A timeout, then a response that declares two billion bytes.\<close>

definition resp_oversize :: response where
  "resp_oversize = \<lparr>status = 200, content_length = Some (Cl_Int 2000000000),
                    chunks = [''abc''], ending = Stream_Ok\<rparr>"

definition env_oversize :: dl_env where
  "env_oversize = \<lparr>net = (\<lambda>k. if k = 0 then Get_Raises (Timeout ''connect timed out'')
                                else Get_Response resp_oversize),
                   open_ok = (\<lambda>k. True), now = 0\<rparr>"

text \<open>Every request is answered 429.\<close>

definition env_429 :: dl_env where
  "env_429 = \<lparr>net = (\<lambda>k. Get_Response \<lparr>status = 429, content_length = None, chunks = [],
                                         ending = Stream_Ok\<rparr>),
              open_ok = (\<lambda>k. True), now = 0\<rparr>"

text \<open>
  Two connect timeouts, then a response whose body stalls after the first three bytes
  were written: \<open>iter_content\<close> reports the read timeout as a \<open>ConnectionError\<close>.
\<close>

definition env_partial :: dl_env where
  "env_partial =
     \<lparr>net = (\<lambda>k. if k < 2 then Get_Raises (Timeout ''connect timed out'')
                  else Get_Response \<lparr>status = 200, content_length = None, chunks = [''abc''],
                                     ending = Stream_Raises (Connection_Error ''Read timed out.'')\<rparr>),
      open_ok = (\<lambda>k. True), now = 0\<rparr>"

text \<open>A response whose body stalls before its first byte, on every attempt.\<close>

definition env_stall :: dl_env where
  "env_stall =
     \<lparr>net = (\<lambda>k. Get_Response \<lparr>status = 200, content_length = None, chunks = [],
                                ending = Stream_Raises (Connection_Error ''Read timed out.'')\<rparr>),
      open_ok = (\<lambda>k. True), now = 0\<rparr>"

lemmas eval_download = download_file_def try_block_def download_body_def handle_exception_def
  resolve_filename_def extract_filename_def os_path_join_def append_file_def
  dl_max_retries_def dl_retry_delay_def Let_def upt_conv_Cons

lemma destination0: "destination cfg0 env url0 None = path0"
  by (simp add: destination_def cfg0_def url0_def path0_def eval_download)

lemma run_429:
  "download_file cfg0 env_429 url0 None st0 =
     (Failed (Http_Failure Too_Many_Requests_429) url0,
      \<lparr>files = Map.empty, dl_slept = [4, 4], dl_requests = 3\<rparr>)"
  by (simp add: cfg0_def env_429_def st0_def url0_def eval_download)

lemma run_partial:
  "download_file cfg0 env_partial url0 None st0 =
     (Failed (Connection_Failed ''Read timed out.'') url0,
      \<lparr>files = [path0 \<mapsto> ''abc''], dl_slept = [2, 2], dl_requests = 3\<rparr>)"
  by (simp add: cfg0_def env_partial_def st0_def url0_def path0_def eval_download)

lemma run_stall:
  "download_file cfg0 env_stall url0 None st0 =
     (Succeeded \<lparr>file_path = path0, filename = ''v.mp4'', size_bytes = 0,
                 message = Already_Exists\<rparr>,
      \<lparr>files = [path0 \<mapsto> []], dl_slept = [2], dl_requests = 1\<rparr>)"
  by (simp add: cfg0_def env_stall_def st0_def url0_def path0_def eval_download)

lemma run_existing_empty:
  "download_file cfg0 env_stall url0 None (st0\<lparr>files := [path0 \<mapsto> []]\<rparr>) =
     (Succeeded \<lparr>file_path = path0, filename = ''v.mp4'', size_bytes = 0,
                 message = Already_Exists\<rparr>,
      st0\<lparr>files := [path0 \<mapsto> []]\<rparr>)"
  by (simp add: cfg0_def env_stall_def st0_def url0_def path0_def eval_download)


subsection \<open>What the \<open>try\<close> block guarantees by itself\<close>

lemma write_chunks_over_removes:
  "write_chunks limit p cs d fs = Inl (n, fs') \<Longrightarrow> fs' p = None"
  by (induction cs arbitrary: d fs) (auto simp: Let_def split: if_splits)

lemma write_chunks_keeps_file:
  "write_chunks limit p cs d fs = Inr fs' \<Longrightarrow> fs p \<noteq> None \<Longrightarrow> fs' p \<noteq> None"
  by (induction cs arbitrary: d fs) (auto simp: Let_def append_file_def split: if_splits)

lemma download_body_failure_no_file:
  "download_body cfg url p name resp fs = (Returned (Failed e u), fs') \<Longrightarrow> fs' p = None"
  by (auto simp: download_body_def Let_def dest: write_chunks_over_removes
      split: sum.splits stream_end.splits option.splits if_splits)

lemma download_body_success:
  "download_body cfg url p name resp fs = (Returned (Succeeded d), fs') \<Longrightarrow>
   file_path d = p \<and> fs' p \<noteq> None \<and> size_bytes d = length (the (fs' p)) \<and> 0 < size_bytes d"
  by (auto simp: download_body_def Let_def
      split: sum.splits stream_end.splits option.splits if_splits)

text \<open>
  A failure returned from inside the \<open>try\<close> block (declared size, running size, zero
  size) leaves no file at the destination.
\<close>

lemma try_block_failure_no_file:
  assumes "try_block cfg env url a name st = (Returned (Failed e u), name', st')"
  shows "files st' (destination cfg env url name) = None"
  using assms
  by (auto simp: try_block_def destination_def Let_def
      dest: download_body_failure_no_file
      split: option.splits get_reply.splits cl_header.splits if_splits prod.splits)

text \<open>
  A success names a file that exists and whose length it reports; after a completed
  download that length is positive. The branch for a file that was already there
  reports whatever length the file has.
\<close>

lemma try_block_success:
  assumes "try_block cfg env url a name st = (Returned (Succeeded d), name', st')"
  shows "files st' (file_path d) \<noteq> None \<and>
         size_bytes d = length (the (files st' (file_path d))) \<and>
         (message d = Completed \<longrightarrow> 0 < size_bytes d) \<and>
         (message d = Already_Exists \<longrightarrow> files st (file_path d) \<noteq> None \<and> st' = st)"
proof (cases "files st (destination cfg env url name)")
  case (Some content)
  with assms show ?thesis
    by (auto simp: try_block_def destination_def Let_def)
next
  case None
  with assms obtain resp fs' where
    body: "download_body cfg url (destination cfg env url name)
             (resolve_filename env url name) resp (files st) = (Returned (Succeeded d), fs')"
    and st': "files st' = fs'"
    by (auto simp: try_block_def destination_def Let_def
        split: get_reply.splits option.splits cl_header.splits if_splits prod.splits)
  from body have "message d = Completed"
    by (auto simp: download_body_def Let_def
        split: sum.splits stream_end.splits option.splits if_splits)
  with download_body_success [OF body] st' show ?thesis by auto
qed

lemma download_loop_success:
  assumes "download_loop cfg env url as name st = (Succeeded d, st')"
  shows "files st' (file_path d) \<noteq> None \<and>
         size_bytes d = length (the (files st' (file_path d))) \<and>
         (message d = Completed \<longrightarrow> 0 < size_bytes d)"
  using assms
proof (induction as arbitrary: name st)
  case Nil
  then show ?case by simp
next
  case (Cons a as)
  obtain out name1 st1 where tb: "try_block cfg env url a name st = (out, name1, st1)"
    by (cases "try_block cfg env url a name st") auto
  show ?case
  proof (cases out)
    case (Returned r)
    with Cons.prems tb have "r = Succeeded d" "st1 = st'" by simp_all
    with tb Returned try_block_success [of cfg env url a name st d name1 st']
    show ?thesis by auto
  next
    case (Raised e)
    show ?thesis
    proof (cases "handle_exception a e")
      case (Give_Up err)
      with Cons.prems tb Raised show ?thesis by simp
    next
      case (Retry_After delay)
      with Cons.prems tb Raised have
        "download_loop cfg env url as name1 (st1\<lparr>dl_slept := dl_slept st1 @ [delay]\<rparr>) =
           (Succeeded d, st')"
        by simp
      then show ?thesis by (rule Cons.IH)
    qed
  qed
qed

lemma download_file_success:
  "download_file cfg env url name st = (Succeeded d, st') \<Longrightarrow>
   files st' (file_path d) \<noteq> None \<and>
   size_bytes d = length (the (files st' (file_path d))) \<and>
   (message d = Completed \<longrightarrow> 0 < size_bytes d)"
  unfolding download_file_def by (rule download_loop_success)


theorem declared_oversize_witness:
  "int 1 < dl_max_retries \<and>
   pre_open_retry (net env_oversize 0) \<and>
   net env_oversize 1 = Get_Response resp_oversize \<and>
   \<not> (400 \<le> status resp_oversize \<and> status resp_oversize < 600) \<and>
   content_length resp_oversize = Some (Cl_Int 2000000000) \<and>
   2000000000 > max_file_size cfg0 \<and>
   files st0 (destination cfg0 env_oversize url0 None) = None \<and>
   fst (download_file cfg0 env_oversize url0 None st0) =
     Failed (Declared_Size_Over_Limit 2000000000) url0 \<and>
   files (snd (download_file cfg0 env_oversize url0 None st0)) = Map.empty"
proof -
  have a1: "int 1 < dl_max_retries" by (simp add: dl_max_retries_def)
  have a2: "\<forall>i<1. pre_open_retry (net env_oversize i)" by (simp add: env_oversize_def)
  have a3: "net env_oversize 1 = Get_Response resp_oversize" by (simp add: env_oversize_def)
  have a4: "\<not> (400 \<le> status resp_oversize \<and> status resp_oversize < 600)"
    by (simp add: resp_oversize_def)
  have a5: "content_length resp_oversize = Some (Cl_Int 2000000000)"
    by (simp add: resp_oversize_def)
  have a6: "2000000000 > max_file_size cfg0" by (simp add: cfg0_def)
  have a7: "files st0 (destination cfg0 env_oversize url0 None) = None"
    by (simp add: st0_def)
  from declared_oversize_rejected_before_writing [OF a1 a2 a3 a4 a5 a6 a7]
  have "fst (download_file cfg0 env_oversize url0 None st0) =
      Failed (Declared_Size_Over_Limit 2000000000) url0"
    and "files (snd (download_file cfg0 env_oversize url0 None st0)) = Map.empty"
    by (simp_all add: st0_def)
  with a1 a2 a3 a4 a5 a6 a7 show ?thesis by simp
qed

text \<open>
  Claim C2, as the code has it. Attempt number \<open>n\<close> (from 1) below the maximum that is
  answered 429 sleeps twice the base delay, whatever \<open>n\<close> is, and goes on to the next
  attempt. The base delay is 2 seconds, so the delay is 4 seconds after the first
  attempt as after the second.
\<close>

theorem rate_limited_retry_delay_is_flat:
  assumes "1 \<le> n" and "int n < dl_max_retries"
    and "net env (n - 1) = Get_Response resp" and "status resp = 429"
    and "files st (destination cfg env url name) = None"
  shows "handle_exception (n - 1) (Http_Error 429) = Retry_After (dl_retry_delay * 2) \<and>
         dl_retry_delay * 2 = 4 \<and>
         download_loop cfg env url ((n - 1) # rest) name st =
           download_loop cfg env url rest (Some (resolve_filename env url name))
             (st\<lparr>dl_requests := Suc (dl_requests st),
                 dl_slept := dl_slept st @ [dl_retry_delay * 2]\<rparr>)"
proof -
  have h: "handle_exception (n - 1) (Http_Error 429) = Retry_After (dl_retry_delay * 2)"
    using assms(1,2) by (simp add: handle_exception_def)
  have "try_block cfg env url (n - 1) name st =
      (Raised (Http_Error 429), Some (resolve_filename env url name),
       st\<lparr>dl_requests := Suc (dl_requests st)\<rparr>)"
    using assms(3,4,5) by (simp add: try_block_def destination_def Let_def)
  with h show ?thesis by (simp add: dl_retry_delay_def)
qed

theorem rate_limited_retry_delay_witness:
  "(1::nat) \<le> 1 \<and> int 1 < dl_max_retries \<and> (1::nat) \<le> 2 \<and> int 2 < dl_max_retries \<and>
   files st0 (destination cfg0 env_429 url0 None) = None \<and>
   handle_exception (1 - 1) (Http_Error 429) = Retry_After 4 \<and>
   handle_exception (2 - 1) (Http_Error 429) = Retry_After 4"
proof -
  have r: "net env_429 k = Get_Response \<lparr>status = 429, content_length = None, chunks = [],
      ending = Stream_Ok\<rparr>" for k
    by (simp add: env_429_def)
  have s: "status \<lparr>status = 429, content_length = None, chunks = [], ending = Stream_Ok\<rparr> = 429"
    by simp
  have f: "files st0 (destination cfg0 env_429 url0 None) = None" by (simp add: st0_def)
  have m1: "int 1 < dl_max_retries" and m2: "int 2 < dl_max_retries"
    by (simp_all add: dl_max_retries_def)
  have le2: "(1::nat) \<le> 2" by simp
  note t1 = rate_limited_retry_delay_is_flat [OF le_refl m1 r s f, of "[]"]
  note t2 = rate_limited_retry_delay_is_flat [OF le2 m2 r s f, of "[]"]
  have "handle_exception (1 - 1) (Http_Error 429) = Retry_After 4"
    using t1 [THEN conjunct1] t1 [THEN conjunct2, THEN conjunct1] by simp
  moreover have "handle_exception (2 - 1) (Http_Error 429) = Retry_After 4"
    using t2 [THEN conjunct1] t2 [THEN conjunct2, THEN conjunct1] by simp
  ultimately show ?thesis using f m1 m2 by simp
qed

text \<open>
  The claim as stated fails at the first attempt: the code sleeps 4 seconds where
  \<open>base_delay * 2 ^ (n - 1)\<close> is 2, and a run answered 429 throughout sleeps 4 and 4.
\<close>

theorem rate_limited_not_exponential_counterexample:
  "handle_exception (1 - 1) (Http_Error 429) = Retry_After 4 \<and>
   handle_exception (1 - 1) (Http_Error 429) \<noteq> Retry_After (dl_retry_delay * 2 ^ (1 - 1)) \<and>
   dl_slept (snd (download_file cfg0 env_429 url0 None st0)) = [4, 4] \<and>
   [dl_retry_delay * 2 ^ (1 - 1), dl_retry_delay * 2 ^ (2 - 1)] = [2, 4]"
  by (simp add: run_429 handle_exception_def dl_max_retries_def dl_retry_delay_def)

text \<open>
  Claim C1 at a failing input. Two connect timeouts and then a read timeout after
  three bytes were written: the download fails once the retries are used up, and the
  three bytes stay at the destination, where no file was before.
\<close>

theorem failed_download_leaves_partial_file:
  "files st0 path0 = None \<and>
   fst (download_file cfg0 env_partial url0 None st0) = Failed (Connection_Failed ''Read timed out.'') url0 \<and>
   files (snd (download_file cfg0 env_partial url0 None st0)) path0 = Some ''abc''"
proof -
  have "files st0 path0 = None" by (simp add: st0_def)
  then show ?thesis by (simp add: run_partial)
qed

text \<open>
  Claim C7 at two failing inputs. A body that stalls before its first byte leaves an
  empty file, and the next attempt reports it as a success of size 0; so does a call
  that finds an empty file already at the destination.
\<close>

theorem success_reported_with_zero_size:
  "fst (download_file cfg0 env_stall url0 None st0) =
     Succeeded \<lparr>file_path = path0, filename = ''v.mp4'', size_bytes = 0,
                message = Already_Exists\<rparr> \<and>
   fst (download_file cfg0 env_stall url0 None (st0\<lparr>files := [path0 \<mapsto> []]\<rparr>)) =
     Succeeded \<lparr>file_path = path0, filename = ''v.mp4'', size_bytes = 0,
                message = Already_Exists\<rparr>"
  by (simp add: run_stall run_existing_empty)

section \<open>Bilibili resolver: \<open>BilibiliParser._call_bilibili_api\<close>\<close>

subsection \<open>The remote API and the configuration\<close>










subsection \<open>One attempt and the loop\<close>






subsection \<open>A failure payload on every attempt\<close>













section \<open>Pipeline orchestrator: \<open>WorkflowController.process_video_link\<close>\<close>

subsection \<open>Python values and dictionaries\<close>



















subsection \<open>Persistence: \<open>_save_transcription_result\<close>\<close>





subsection \<open>The stages and the run\<close>











subsection \<open>Persistence only adds the four path keys\<close>





subsection \<open>Failing and succeeding stages\<close>



















subsection \<open>A concrete pipeline\<close>
















end
